theory Spec2Isabelle
  imports Main "HOL-Library.Sublist"
begin

section \<open>Python strings\<close>

text \<open>
  A Python \<open>str\<close> is modelled as a \<open>string\<close>: each \<open>char\<close> stands for one code point
  below 256 (ASCII and Latin-1). The character classes below are the ones Python's
  \<open>str.split()\<close>, \<open>str.isupper()\<close>, \<open>str.isalpha()\<close> and \<open>str.lower()\<close> use on that range.
\<close>

definition isspace :: "char \<Rightarrow> bool" where
  "isspace c =
     (let n = (of_char c :: nat)
      in (9 \<le> n \<and> n \<le> 13) \<or> (28 \<le> n \<and> n \<le> 32) \<or> n = 133 \<or> n = 160)"

definition isupper :: "char \<Rightarrow> bool" where
  "isupper c =
     (let n = (of_char c :: nat)
      in (65 \<le> n \<and> n \<le> 90) \<or> (192 \<le> n \<and> n \<le> 214) \<or> (216 \<le> n \<and> n \<le> 222))"

definition isalpha_char :: "char \<Rightarrow> bool" where
  "isalpha_char c =
     (let n = (of_char c :: nat)
      in (65 \<le> n \<and> n \<le> 90) \<or> (97 \<le> n \<and> n \<le> 122) \<or> n = 170 \<or> n = 181 \<or> n = 186
         \<or> (192 \<le> n \<and> n \<le> 214) \<or> (216 \<le> n \<and> n \<le> 246) \<or> (248 \<le> n \<and> n \<le> 255))"

text \<open>\<open>s.isalpha()\<close>: the string is not empty and every character is alphabetic.\<close>

definition isalpha :: "string \<Rightarrow> bool" where
  "isalpha s = (s \<noteq> [] \<and> list_all isalpha_char s)"

definition lower_char :: "char \<Rightarrow> char" where
  "lower_char c = (if isupper c then char_of ((of_char c :: nat) + 32) else c)"

definition lower :: "string \<Rightarrow> string" where
  "lower s = map lower_char s"

text \<open>
  \<open>s.split()\<close> with no argument: the maximal runs of non-whitespace characters, in order.
  \<open>cur\<close> holds the characters of the word being read, last one first.
\<close>

fun split_from :: "string \<Rightarrow> string \<Rightarrow> string list" where
  "split_from cur [] = (if cur = [] then [] else [rev cur])"
| "split_from cur (c # cs) =
     (if isspace c then (if cur = [] then split_from [] cs else rev cur # split_from [] cs)
      else split_from (c # cur) cs)"

definition split :: "string \<Rightarrow> string list" where
  "split s = split_from [] s"

text \<open>\<open>sep.join(xs)\<close>.\<close>

fun join :: "string \<Rightarrow> string list \<Rightarrow> string" where
  "join sep [] = []"
| "join sep [x] = x"
| "join sep (x # y # ys) = x @ sep @ join sep (y # ys)"

text \<open>\<open>s.strip(chars)\<close>: drop the characters of \<open>chars\<close> from both ends.\<close>

definition strip :: "string \<Rightarrow> string \<Rightarrow> string" where
  "strip chars s =
     rev (dropWhile (\<lambda>c. c \<in> set chars) (rev (dropWhile (\<lambda>c. c \<in> set chars) s)))"

text \<open>\<open>str(n)\<close> for an integer: decimal digits, with a minus sign when negative.\<close>

definition digit_char :: "nat \<Rightarrow> char" where
  "digit_char d = char_of (48 + d)"

fun str_nat :: "nat \<Rightarrow> string" where
  "str_nat n = (if n < 10 then [digit_char n] else str_nat (n div 10) @ [digit_char (n mod 10)])"

declare str_nat.simps [simp del]

definition str_int :: "int \<Rightarrow> string" where
  "str_int i = (if i < 0 then CHR ''-'' # str_nat (nat (- i)) else str_nat (nat i))"

section \<open>Exceptions, documents and the vector store\<close>

text \<open>
  An instance of Python's \<open>Exception\<close> class, the class both \<open>except Exception\<close>
  handlers of the source catch; \<open>str_of e\<close> is \<open>str(e)\<close>.
\<close>

datatype exception = Exception (str_of: string)

text \<open>
  A langchain \<open>Document\<close>: its text and \<open>metadata.get('page')\<close> (\<open>None\<close> when the key
  is missing).
\<close>

record document =
  page_content :: string
  page :: "int option"

text \<open>
  The vector store is an external library; the source uses it through
  \<open>similarity_search(query, k)\<close>, which returns documents or raises.
\<close>

type_synonym vector_store = "string \<Rightarrow> nat \<Rightarrow> exception + document list"

section \<open>The assistant and its log of referenced rules\<close>

record assistant =
  referenced_rules :: "string list"

text \<open>
  \<open>__init__\<close> sets \<open>self._referenced_rules = []\<close>.
\<close>

definition init :: assistant where
  "init = \<lparr>referenced_rules = []\<rparr>"

text \<open>
  \<open>_add_referenced_rule\<close>: \<open>if rule and rule not in self._referenced_rules: append\<close>.
\<close>

definition add_referenced_rule :: "string \<Rightarrow> assistant \<Rightarrow> assistant" where
  "add_referenced_rule rule s =
     (if rule \<noteq> [] \<and> rule \<notin> set (referenced_rules s)
      then s\<lparr>referenced_rules := referenced_rules s @ [rule]\<rparr>
      else s)"

section \<open>The search tool\<close>

definition rule_keywords :: "string list" where
  "rule_keywords = [''race'', ''class'', ''spell'', ''item'', ''monster'', ''rule'']"

text \<open>The body of the loop \<open>for doc in docs[:2]\<close>.\<close>

definition note_document :: "document \<Rightarrow> assistant \<Rightarrow> assistant" where
  "note_document doc s =
     (let content_lower = lower (page_content doc)
      in if list_ex (\<lambda>keyword. sublist keyword content_lower) rule_keywords
         then (let words = take 3 (split (page_content doc))
               in if words \<noteq> []
                  then (let rule_name = strip ''.,:;'' (join '' '' words)
                        in add_referenced_rule (''Found: '' @ rule_name) s)
                  else s)
         else s)"

text \<open>\<open>f"Source: Page {doc.metadata.get('page', 'N/A')}\n{doc.page_content}"\<close>.\<close>

definition render :: "document \<Rightarrow> string" where
  "render doc =
     ''Source: Page '' @ (case page doc of None \<Rightarrow> ''N/A'' | Some n \<Rightarrow> str_int n)
       @ [CHR 0x0A] @ page_content doc"

text \<open>
  The \<open>try\<close> block of \<open>search_rules\<close>: \<open>Inl e\<close> when it raises \<open>e\<close>, \<open>Inr r\<close> when it
  returns \<open>r\<close>, with the assistant as the block leaves it.
\<close>

definition search_rules_try :: "vector_store \<Rightarrow> string \<Rightarrow> assistant \<Rightarrow> (exception + string) \<times> assistant" where
  "search_rules_try rules_vector_store query s =
     (case rules_vector_store query 4 of
        Inl e \<Rightarrow> (Inl e, s)
      | Inr docs \<Rightarrow>
          if docs = [] then (Inr ''No matching rules found in the rulebooks.'', s)
          else (let s1 = add_referenced_rule (''Search: '' @ query) s;
                    s2 = foldl (\<lambda>s' doc. note_document doc s') s1 (take 2 docs);
                    content = join [CHR 0x0A, CHR 0x0A] (map render docs)
                in (Inr content, s2)))"

text \<open>\<open>search_rules\<close>: the \<open>try\<close> block and its handler \<open>except Exception as e\<close>.\<close>

definition search_rules :: "vector_store \<Rightarrow> string \<Rightarrow> assistant \<Rightarrow> string \<times> assistant" where
  "search_rules rules_vector_store query s =
     (case search_rules_try rules_vector_store query s of
        (Inl e, s') \<Rightarrow> (''Error searching rules: '' @ str_of e, s')
      | (Inr r, s') \<Rightarrow> (r, s'))"

section \<open>The agent and \<open>send_message\<close>\<close>

text \<open>
  One event of the agent's stream: \<open>messages ev\<close> is \<open>ev["messages"]\<close>, \<open>None\<close> when the
  key is missing; \<open>content m\<close> is the message's \<open>content\<close> attribute, \<open>None\<close> when
  \<open>hasattr(m, 'content')\<close> is false.
\<close>

datatype message = Message (content: "string option")

datatype event = Event (messages: "message list option")

text \<open>
  The agent is an external library. What \<open>list(self.agent.stream(...))\<close> does in one turn,
  as far as the assistant can see it: the agent calls the \<open>search_rules\<close> tool with some
  queries, in order, and then either raises or has yielded a list of events.
\<close>

record agent_run =
  tool_calls :: "string list"
  outcome :: "exception + event list"

type_synonym agent = "string \<Rightarrow> agent_run"

text \<open>The text \<open>send_message\<close> extracts from the events (\<open>response_text\<close> in the source).\<close>

definition response_text :: "event list \<Rightarrow> string" where
  "response_text events =
     (if events \<noteq> [] then
        (case messages (last events) of
           None \<Rightarrow> ''Sorry, I couldn't generate a response.''
         | Some ms \<Rightarrow>
             if ms \<noteq> [] then
               (case content (last ms) of
                  None \<Rightarrow> ''Sorry, I couldn't generate a response.''
                | Some c \<Rightarrow> c)
             else ''Sorry, I couldn't generate a response.'')
      else ''Sorry, I couldn't generate a response.'')"

text \<open>\<open>s[-1]\<close> on a string: raises \<open>IndexError\<close> when the string is empty.\<close>

definition last_char :: "string \<Rightarrow> exception + char" where
  "last_char w = (if w = [] then Inl (Exception ''string index out of range'') else Inr (last w))"

text \<open>
  The loop of \<open>_extract_rules_from_response\<close> over \<open>enumerate(words)\<close>; \<open>Some e\<close> when it
  raises \<open>e\<close>.
\<close>

fun extract_loop :: "string list \<Rightarrow> (nat \<times> string) list \<Rightarrow> assistant \<Rightarrow> exception option \<times> assistant" where
  "extract_loop words [] s = (None, s)"
| "extract_loop words ((i, word) # rest) s =
     (if word \<noteq> [] \<and> isupper (hd word) \<and> length word > 2 \<and> isalpha word then
        (if i > 0 then
           (case last_char (words ! (i - 1)) of
              Inl e \<Rightarrow> (Some e, s)
            | Inr c \<Rightarrow>
                if c \<notin> set ''.!?''
                then extract_loop words rest (add_referenced_rule (''Possible: '' @ word) s)
                else extract_loop words rest s)
         else extract_loop words rest s)
      else extract_loop words rest s)"

definition extract_rules_from_response :: "string \<Rightarrow> string \<Rightarrow> assistant \<Rightarrow> exception option \<times> assistant" where
  "extract_rules_from_response response query s =
     (let words = split response in extract_loop words (enumerate 0 words) s)"

text \<open>
  The \<open>try\<close> block of \<open>send_message\<close>. The tool calls of the agent run on the assistant
  after the \<open>Query: \<close> entry is logged and before the stream ends.
\<close>

definition send_message_try :: "vector_store \<Rightarrow> agent \<Rightarrow> string \<Rightarrow> assistant \<Rightarrow> (exception + string) \<times> assistant" where
  "send_message_try rules_vector_store agent message s =
     (let s1 = add_referenced_rule (''Query: '' @ message) s;
          run = agent message;
          s2 = foldl (\<lambda>s' q. snd (search_rules rules_vector_store q s')) s1 (tool_calls run)
      in case outcome run of
           Inl e \<Rightarrow> (Inl e, s2)
         | Inr events \<Rightarrow>
             (let text = response_text events
              in case extract_rules_from_response text message s2 of
                   (Some e, s3) \<Rightarrow> (Inl e, s3)
                 | (None, s3) \<Rightarrow> (Inr text, s3)))"

definition send_message :: "vector_store \<Rightarrow> agent \<Rightarrow> string \<Rightarrow> assistant \<Rightarrow> string \<times> assistant" where
  "send_message rules_vector_store agent message s =
     (case send_message_try rules_vector_store agent message s of
        (Inl e, s') \<Rightarrow> (''Error: '' @ str_of e, s')
      | (Inr r, s') \<Rightarrow> (r, s'))"

text \<open>The operations that write to the log, and a session as a list of them.\<close>

datatype operation = Send_message agent string | Search_rules string

fun apply_operation :: "vector_store \<Rightarrow> operation \<Rightarrow> assistant \<Rightarrow> assistant" where
  "apply_operation vs (Send_message agent message) s = snd (send_message vs agent message s)"
| "apply_operation vs (Search_rules query) s = snd (search_rules vs query s)"

definition run_operations :: "vector_store \<Rightarrow> operation list \<Rightarrow> assistant \<Rightarrow> assistant" where
  "run_operations vs ops s = foldl (\<lambda>s' op. apply_operation vs op s') s ops"

section \<open>Loading the rulebook and building the index\<close>

definition pdf_path :: string where
  "pdf_path = ''Player's Handbook.pdf''"

definition placeholder_document :: document where
  "placeholder_document =
     \<lparr>page_content = ''Goliath: A race of powerful humanoids known for their strength and size.'',
      page = Some 123\<rparr>"

text \<open>
  \<open>_load_rules_documents\<close>: \<open>load\<close> is the result of \<open>document_loader.load()\<close>,
  \<open>split_documents\<close> is \<open>text_splitter.split_documents\<close>; both are external and may raise.
\<close>

definition load_rules_documents :: "(exception + document list) \<Rightarrow> (document list \<Rightarrow> exception + document list) \<Rightarrow> document list" where
  "load_rules_documents load split_documents =
     (case load of
        Inl e \<Rightarrow> []
      | Inr all_pages \<Rightarrow>
          if all_pages = [] then []
          else (case split_documents all_pages of Inl e \<Rightarrow> [] | Inr chunks \<Rightarrow> chunks))"

text \<open>
  The \<open>rules_docs\<close> of \<open>_setup_assistant\<close>; \<open>files\<close> lists the paths for which
  \<open>os.path.exists\<close> is true, \<open>loader path\<close> is what \<open>PyPDFLoader(path).load()\<close> does.
\<close>

definition rules_docs :: "string list \<Rightarrow> (string \<Rightarrow> exception + document list) \<Rightarrow> (document list \<Rightarrow> exception + document list) \<Rightarrow> document list" where
  "rules_docs files loader split_documents =
     (if pdf_path \<notin> set files then [placeholder_document]
      else load_rules_documents (loader pdf_path) split_documents)"

text \<open>
  Modelled from the spec: the in-memory vector store is a third-party library, not part of
  the source. The Embedding Index of the specification embeds each chunk at construction
  and \<open>search(query, k)\<close> returns the \<open>k\<close> entries most similar to the query, ranked by
  descending similarity, fewer only when the index holds fewer.
\<close>

fun insert_desc :: "('e \<Rightarrow> 'a::linorder) \<Rightarrow> 'e \<Rightarrow> 'e list \<Rightarrow> 'e list" where
  "insert_desc f x [] = [x]"
| "insert_desc f x (y # ys) = (if f y \<le> f x then x # y # ys else y # insert_desc f x ys)"

definition sort_desc :: "('e \<Rightarrow> 'a::linorder) \<Rightarrow> 'e list \<Rightarrow> 'e list" where
  "sort_desc f xs = foldr (insert_desc f) xs []"

definition from_documents :: "(string \<Rightarrow> 'v) \<Rightarrow> document list \<Rightarrow> (document \<times> 'v) list" where
  "from_documents embedding documents = map (\<lambda>d. (d, embedding (page_content d))) documents"

definition similarity_search :: "(string \<Rightarrow> 'v) \<Rightarrow> ('v \<Rightarrow> 'v \<Rightarrow> 'a::linorder) \<Rightarrow> (document \<times> 'v) list \<Rightarrow> vector_store" where
  "similarity_search embedding similarity index query k =
     Inr (map fst (take k (sort_desc (\<lambda>entry. similarity (embedding query) (snd entry)) index)))"

text \<open>\<open>_prepare_vector_store\<close>.\<close>

definition prepare_vector_store :: "document list \<Rightarrow> (string \<Rightarrow> 'v) \<Rightarrow> ('v \<Rightarrow> 'v \<Rightarrow> 'a::linorder) \<Rightarrow> vector_store" where
  "prepare_vector_store rules_chunks embedding similarity =
     similarity_search embedding similarity (from_documents embedding rules_chunks)"

section \<open>The log as a list object\<close>

text \<open>
  Python lists are objects: \<open>self._referenced_rules\<close> holds a reference, and whoever holds
  the same reference sees every append. The store maps each address to the list object
  it holds; addresses below \<open>next_addr\<close> are allocated.
\<close>

type_synonym addr = nat

record store =
  objects :: "addr \<Rightarrow> string list"
  next_addr :: addr

text \<open>Creating a list object: a fresh address.\<close>

definition new_list :: "string list \<Rightarrow> store \<Rightarrow> addr \<times> store" where
  "new_list xs h = (next_addr h, h\<lparr>objects := (objects h)(next_addr h := xs), next_addr := Suc (next_addr h)\<rparr>)"

text \<open>
  \<open>get_referenced_rules\<close> on the assistant whose \<open>_referenced_rules\<close> is the list at
  \<open>self\<close>: \<open>return self._referenced_rules.copy()\<close>, a new list object with the same items.
\<close>

definition get_referenced_rules :: "addr \<Rightarrow> store \<Rightarrow> addr \<times> store" where
  "get_referenced_rules self h = new_list (objects h self) h"

text \<open>\<open>_add_referenced_rule\<close> on the store: the list at \<open>self\<close> is updated in place.\<close>

definition add_referenced_rule_at :: "addr \<Rightarrow> string \<Rightarrow> store \<Rightarrow> store" where
  "add_referenced_rule_at self rule h =
     h\<lparr>objects := (objects h)(self := referenced_rules (add_referenced_rule rule \<lparr>referenced_rules = objects h self\<rparr>))\<rparr>"

text \<open>Any in-place change of the list at address \<open>a\<close> by its holder.\<close>

definition mutate_list :: "addr \<Rightarrow> (string list \<Rightarrow> string list) \<Rightarrow> store \<Rightarrow> store" where
  "mutate_list a f h = h\<lparr>objects := (objects h)(a := f (objects h a))\<rparr>"

section \<open>What each operation writes to the log\<close>

text \<open>
  Calling \<open>_add_referenced_rule\<close> on each entry of a list, in order.
\<close>

definition add_referenced_rules :: "string list \<Rightarrow> assistant \<Rightarrow> assistant" where
  "add_referenced_rules rules s = foldl (\<lambda>s' rule. add_referenced_rule rule s') s rules"

text \<open>
  The lowercased text of the chunk contains one of the keywords.
\<close>

definition mentions_keyword :: "document \<Rightarrow> bool" where
  "mentions_keyword doc = (\<exists>keyword\<in>set rule_keywords. sublist keyword (lower (page_content doc)))"

text \<open>
  The first three words of the chunk joined by single spaces, with the characters
  \<open>.,:;\<close> trimmed from both ends.
\<close>

definition first_three_words :: "document \<Rightarrow> string" where
  "first_three_words doc = strip ''.,:;'' (join '' '' (take 3 (split (page_content doc))))"

text \<open>
  The \<open>Found: \<close> entries of a search: one for each of the first two returned chunks that
  mentions a keyword.
\<close>

definition found_entries :: "document list \<Rightarrow> string list" where
  "found_entries docs = map (\<lambda>doc. ''Found: '' @ first_three_words doc) (filter mentions_keyword (take 2 docs))"

text \<open>
  An alphabetic word of length greater than 2 whose first character is uppercase.
\<close>

definition capitalised :: "string \<Rightarrow> bool" where
  "capitalised word = (isalpha word \<and> length word > 2 \<and> isupper (hd word))"

text \<open>
  The words the response heuristic keeps: capitalised words that are not the first word
  and whose preceding word does not end in \<open>.\<close>, \<open>!\<close> or \<open>?\<close>.
\<close>

definition possible_words :: "string list \<Rightarrow> string list" where
  "possible_words words =
     [word. (i, word) \<leftarrow> enumerate 0 words,
            capitalised word \<and> 0 < i \<and> last (words ! (i - 1)) \<notin> set ''.!?'']"

text \<open>
  The entries one call of \<open>search_rules\<close> writes to the log, in order.
\<close>

definition search_entries :: "vector_store \<Rightarrow> string \<Rightarrow> string list" where
  "search_entries vs query =
     (case vs query 4 of
        Inl e \<Rightarrow> []
      | Inr docs \<Rightarrow> if docs = [] then [] else (''Search: '' @ query) # found_entries docs)"

text \<open>
  The entries one operation writes to the log, in order.
\<close>

fun logged :: "vector_store \<Rightarrow> operation \<Rightarrow> string list" where
  "logged vs (Search_rules query) = search_entries vs query"
| "logged vs (Send_message agent message) =
     (''Query: '' @ message) # concat (map (search_entries vs) (tool_calls (agent message)))
       @ (case outcome (agent message) of
            Inl e \<Rightarrow> []
          | Inr events \<Rightarrow> map ((@) ''Possible: '') (possible_words (split (response_text events))))"

text \<open>
  The entries of a list that are not empty and not seen before, each at its first
  occurrence; \<open>seen\<close> holds what the log already contains.
\<close>

fun first_seen :: "string list \<Rightarrow> string list \<Rightarrow> string list" where
  "first_seen seen [] = []"
| "first_seen seen (x # xs) =
     (if x = [] \<or> x \<in> set seen then first_seen seen xs else x # first_seen (x # seen) xs)"

text \<open>
  The similarity of a chunk to a query, as the index of the specification ranks it.
\<close>

definition score :: "(string \<Rightarrow> 'v) \<Rightarrow> ('v \<Rightarrow> 'v \<Rightarrow> 'a::linorder) \<Rightarrow> string \<Rightarrow> document \<Rightarrow> 'a" where
  "score embedding similarity query doc = similarity (embedding query) (embedding (page_content doc))"

section \<open>Concrete inputs\<close>

text \<open>An agent whose model call fails before any tool call.\<close>

definition failing_agent :: agent where
  "failing_agent message = \<lparr>tool_calls = [], outcome = Inl (Exception ''rate limit'')\<rparr>"

text \<open>A store in which the assistant's log is the list object at address 0.\<close>

definition example_store :: store where
  "example_store = \<lparr>objects = (\<lambda>a. []) (0 := [''Query: hi'']), next_addr = 1\<rparr>"

text \<open>
  An agent that calls the tool once and then answers with one message.
\<close>

definition goliath_agent :: agent where
  "goliath_agent message =
     \<lparr>tool_calls = [''What is a Goliath?''],
      outcome = Inr [Event (Some [Message (Some ''The Goliath is a Race.'')])]\<rparr>"

text \<open>A vector store whose search raises, and the store built from the placeholder chunk.\<close>

definition failing_store :: vector_store where
  "failing_store query k = Inl (Exception ''index offline'')"

definition placeholder_store :: vector_store where
  "placeholder_store = prepare_vector_store [placeholder_document] length (-)"

section \<open>Properties of the model\<close>

lemma add_referenced_rule_distinct:
  "distinct (referenced_rules s) \<Longrightarrow> distinct (referenced_rules (add_referenced_rule rule s))"
  by (simp add: add_referenced_rule_def)

lemma add_referenced_rule_prefix:
  "prefix (referenced_rules s) (referenced_rules (add_referenced_rule rule s))"
  by (simp add: add_referenced_rule_def)

lemma add_referenced_rules_Nil [simp]: "add_referenced_rules [] s = s"
  by (simp add: add_referenced_rules_def)

lemma add_referenced_rules_Cons [simp]:
  "add_referenced_rules (r # rs) s = add_referenced_rules rs (add_referenced_rule r s)"
  by (simp add: add_referenced_rules_def)

lemma add_referenced_rules_append:
  "add_referenced_rules (rs @ rs') s = add_referenced_rules rs' (add_referenced_rules rs s)"
  by (simp add: add_referenced_rules_def)

lemma isspace_not_isupper: "isspace c \<Longrightarrow> \<not> isupper c"
  by (auto simp: isspace_def isupper_def Let_def)

lemma isspace_lower_char: "isspace (lower_char c) \<Longrightarrow> isspace c"
  by (cases "isupper c") (auto simp: lower_char_def isspace_def isupper_def Let_def)

lemma split_from_empty_iff:
  "split_from cur s = [] \<longleftrightarrow> cur = [] \<and> (\<forall>c\<in>set s. isspace c)"
  by (induction s arbitrary: cur) auto

lemma split_from_nonempty_words:
  "w \<in> set (split_from cur s) \<Longrightarrow> w \<noteq> []"
  by (induction s arbitrary: cur) (auto split: if_splits)

lemma keyword_has_letter: "k \<in> set rule_keywords \<Longrightarrow> \<exists>c\<in>set k. \<not> isspace c"
  by (auto simp: rule_keywords_def isspace_def)

lemma sublist_set: "sublist xs ys \<Longrightarrow> set xs \<subseteq> set ys"
  by (auto simp: sublist_def)

lemma mentions_keyword_words:
  assumes "mentions_keyword doc"
  shows "split (page_content doc) \<noteq> []"
proof -
  from assms obtain k where k: "k \<in> set rule_keywords" and sub: "sublist k (lower (page_content doc))"
    by (auto simp: mentions_keyword_def)
  from keyword_has_letter [OF k] obtain c where c: "c \<in> set k" and ns: "\<not> isspace c"
    by blast
  from c sub have "c \<in> set (lower (page_content doc))"
    using sublist_set by blast
  then obtain c0 where c0: "c0 \<in> set (page_content doc)" and eq: "c = lower_char c0"
    by (auto simp: lower_def)
  from ns eq have "\<not> isspace c0"
    using isspace_not_isupper [of c0] by (auto simp: lower_char_def)
  with c0 show ?thesis
    by (auto simp: split_def split_from_empty_iff)
qed

lemma note_document_eq:
  "note_document doc s =
     (if mentions_keyword doc then add_referenced_rule (''Found: '' @ first_three_words doc) s else s)"
proof (cases "mentions_keyword doc")
  case True
  then have "take 3 (split (page_content doc)) \<noteq> []"
    using mentions_keyword_words [OF True] by simp
  with True show ?thesis
    by (simp add: note_document_def mentions_keyword_def first_three_words_def list_ex_iff Let_def)
next
  case False
  then show ?thesis
    by (simp add: note_document_def mentions_keyword_def list_ex_iff Let_def)
qed

lemma note_documents_eq:
  "foldl (\<lambda>s' doc. note_document doc s') s docs =
     add_referenced_rules (map (\<lambda>doc. ''Found: '' @ first_three_words doc) (filter mentions_keyword docs)) s"
  by (induction docs arbitrary: s) (simp_all add: note_document_eq)

lemma search_rules_try_found:
  assumes "vs query 4 = Inr docs" and "docs \<noteq> []"
  shows "search_rules_try vs query s =
           (Inr (join [CHR 0x0A, CHR 0x0A] (map render docs)),
            add_referenced_rules ((''Search: '' @ query) # found_entries docs) s)"
  using assms by (simp add: search_rules_try_def note_documents_eq found_entries_def Let_def)

lemma search_rules_try_none:
  "vs query 4 = Inr [] \<Longrightarrow> search_rules_try vs query s = (Inr ''No matching rules found in the rulebooks.'', s)"
  by (simp add: search_rules_try_def)

lemma search_rules_try_raise:
  "vs query 4 = Inl e \<Longrightarrow> search_rules_try vs query s = (Inl e, s)"
  by (simp add: search_rules_try_def)

lemma extract_loop_eq:
  assumes "\<forall>w\<in>set words. w \<noteq> []" and "\<forall>p\<in>set ps. fst p \<le> length words"
  shows "extract_loop words ps s =
           (None, add_referenced_rules
                    (map ((@) ''Possible: '')
                       [word. (i, word) \<leftarrow> ps,
                              capitalised word \<and> 0 < i \<and> last (words ! (i - 1)) \<notin> set ''.!?'']) s)"
  using assms(2)
proof (induction ps arbitrary: s)
  case Nil
  then show ?case by simp
next
  case (Cons p ps)
  obtain i word where p: "p = (i, word)" by (cases p)
  from Cons.prems have rest: "\<forall>p\<in>set ps. fst p \<le> length words" by simp
  note IH = Cons.IH [OF rest]
  show ?case
  proof (cases "0 < i")
    case True
    with Cons.prems p have "i - 1 < length words" by auto
    then have "words ! (i - 1) \<in> set words" by simp
    with assms(1) have ne: "words ! (i - 1) \<noteq> []" by blast
    show ?thesis
      using True ne by (simp add: p IH last_char_def capitalised_def isalpha_def)
  next
    case False
    then show ?thesis
      by (simp add: p IH)
  qed
qed

lemma extract_rules_from_response_eq:
  "extract_rules_from_response response query s =
     (None, add_referenced_rules (map ((@) ''Possible: '') (possible_words (split response))) s)"
proof -
  have "\<forall>w\<in>set (split response). w \<noteq> []"
    by (auto simp: split_def dest: split_from_nonempty_words)
  moreover have "\<forall>p\<in>set (enumerate 0 (split response)). fst p \<le> length (split response)"
    by (auto simp: in_set_enumerate_eq)
  ultimately show ?thesis
    by (simp add: extract_rules_from_response_def possible_words_def extract_loop_eq Let_def)
qed

lemma add_referenced_rules_distinct:
  "distinct (referenced_rules s) \<Longrightarrow> distinct (referenced_rules (add_referenced_rules rs s))"
  by (induction rs arbitrary: s) (simp_all add: add_referenced_rule_distinct)

lemma add_referenced_rules_prefix:
  "prefix (referenced_rules s) (referenced_rules (add_referenced_rules rs s))"
proof (induction rs arbitrary: s)
  case Nil
  show ?case by simp
next
  case (Cons r rs)
  have "prefix (referenced_rules s) (referenced_rules (add_referenced_rule r s))"
    by (rule add_referenced_rule_prefix)
  moreover have "prefix (referenced_rules (add_referenced_rule r s))
      (referenced_rules (add_referenced_rules rs (add_referenced_rule r s)))"
    by (rule Cons.IH)
  ultimately have "prefix (referenced_rules s)
      (referenced_rules (add_referenced_rules rs (add_referenced_rule r s)))"
    by (rule prefix_order.trans)
  then show ?case by simp
qed

lemma first_seen_cong: "set seen = set seen' \<Longrightarrow> first_seen seen xs = first_seen seen' xs"
proof (induction xs arbitrary: seen seen')
  case Nil
  show ?case by simp
next
  case (Cons x xs)
  have "first_seen (x # seen) xs = first_seen (x # seen') xs"
    by (rule Cons.IH) (simp add: Cons.prems)
  moreover have "first_seen seen xs = first_seen seen' xs"
    by (rule Cons.IH) (rule Cons.prems)
  ultimately show ?case
    by (simp add: Cons.prems)
qed

lemma add_referenced_rules_first_seen:
  "referenced_rules (add_referenced_rules rs s) = referenced_rules s @ first_seen (referenced_rules s) rs"
proof (induction rs arbitrary: s)
  case Nil
  show ?case by simp
next
  case (Cons r rs)
  show ?case
  proof (cases "r = [] \<or> r \<in> set (referenced_rules s)")
    case True
    have step: "add_referenced_rules (r # rs) s = add_referenced_rules rs s"
      using True by (auto simp: add_referenced_rule_def)
    have fs: "first_seen (referenced_rules s) (r # rs) = first_seen (referenced_rules s) rs"
      using True by auto
    show ?thesis
      unfolding step fs by (rule Cons.IH)
  next
    case False
    have step: "referenced_rules (add_referenced_rule r s) = referenced_rules s @ [r]"
      using False by (simp add: add_referenced_rule_def)
    have cong: "first_seen (referenced_rules s @ [r]) rs = first_seen (r # referenced_rules s) rs"
      by (rule first_seen_cong) simp
    have "referenced_rules (add_referenced_rules (r # rs) s)
            = referenced_rules (add_referenced_rule r s)
                @ first_seen (referenced_rules (add_referenced_rule r s)) rs"
      by (simp add: Cons.IH)
    with False show ?thesis
      by (simp add: step cong)
  qed
qed

lemma search_rules_snd:
  "snd (search_rules vs query s) = add_referenced_rules (search_entries vs query) s"
proof (cases "vs query 4")
  case (Inl e)
  then show ?thesis
    by (simp add: search_rules_def search_rules_try_raise search_entries_def)
next
  case (Inr docs)
  show ?thesis
  proof (cases "docs = []")
    case True
    with Inr show ?thesis
      by (simp add: search_rules_def search_rules_try_none search_entries_def)
  next
    case False
    with Inr show ?thesis
      by (simp add: search_rules_def search_rules_try_found search_entries_def)
  qed
qed

lemma tool_calls_snd:
  "foldl (\<lambda>s' q. snd (search_rules vs q s')) s queries =
     add_referenced_rules (concat (map (search_entries vs) queries)) s"
  by (induction queries arbitrary: s) (simp_all add: search_rules_snd add_referenced_rules_append)

lemma send_message_try_eq:
  "send_message_try vs agent message s =
     (case outcome (agent message) of
        Inl e \<Rightarrow> Inl e
      | Inr events \<Rightarrow> Inr (response_text events),
      add_referenced_rules (logged vs (Send_message agent message)) s)"
  by (cases "outcome (agent message)")
     (simp_all add: send_message_try_def Let_def tool_calls_snd extract_rules_from_response_eq
        add_referenced_rules_append)

lemma send_message_eq:
  "send_message vs agent message s =
     (case outcome (agent message) of
        Inl e \<Rightarrow> ''Error: '' @ str_of e
      | Inr events \<Rightarrow> response_text events,
      add_referenced_rules (logged vs (Send_message agent message)) s)"
  by (cases "outcome (agent message)") (simp_all add: send_message_def send_message_try_eq)

lemma apply_operation_eq:
  "apply_operation vs op s = add_referenced_rules (logged vs op) s"
  by (cases op) (simp_all add: send_message_eq search_rules_snd)

lemma run_operations_eq:
  "run_operations vs ops s = add_referenced_rules (concat (map (logged vs) ops)) s"
  unfolding run_operations_def
  by (induction ops arbitrary: s) (simp_all add: apply_operation_eq add_referenced_rules_append)

lemma response_text_content:
  "response_text (events @ [Event (Some (ms @ [Message (Some c)]))]) = c"
  by (simp add: response_text_def)

lemma prepare_vector_store_empty:
  "prepare_vector_store [] embedding similarity query k = Inr []"
  by (simp add: prepare_vector_store_def similarity_search_def from_documents_def sort_desc_def)

lemma query_logged:
  "''Query: '' @ message \<in> set (referenced_rules (add_referenced_rule (''Query: '' @ message) s))"
  by (simp add: add_referenced_rule_def)

lemma insert_desc_set: "set (insert_desc f x xs) = insert x (set xs)"
  by (induction xs) auto

lemma insert_desc_sorted:
  "sorted_wrt (\<lambda>a b. f b \<le> f a) xs \<Longrightarrow> sorted_wrt (\<lambda>a b. f b \<le> f a) (insert_desc f x xs)"
  by (induction xs) (auto simp: insert_desc_set)

lemma sort_desc_sorted: "sorted_wrt (\<lambda>a b. f b \<le> f a) (sort_desc f xs)"
  unfolding sort_desc_def by (induction xs) (simp_all add: insert_desc_sorted)

lemma sort_desc_set: "set (sort_desc f xs) = set xs"
  unfolding sort_desc_def by (induction xs) (simp_all add: insert_desc_set)

lemma prepare_vector_store_ranked:
  assumes "prepare_vector_store chunks embedding similarity query k = Inr docs"
  shows "length docs \<le> k"
    and "sorted_wrt (\<lambda>a b. score embedding similarity query b \<le> score embedding similarity query a) docs"
proof -
  let ?f = "\<lambda>entry. similarity (embedding query) (snd entry)"
  let ?entries = "take k (sort_desc ?f (from_documents embedding chunks))"
  have docs: "docs = map fst ?entries"
    using assms by (simp add: prepare_vector_store_def similarity_search_def)
  show "length docs \<le> k"
    by (simp add: docs)
  have "set ?entries \<subseteq> set (from_documents embedding chunks)"
    using set_take_subset [of k "sort_desc ?f (from_documents embedding chunks)"]
    by (simp add: sort_desc_set)
  then have snd_eq: "\<And>p. p \<in> set ?entries \<Longrightarrow> snd p = embedding (page_content (fst p))"
    by (auto simp: from_documents_def)
  have "sorted_wrt (\<lambda>a b. ?f b \<le> ?f a) (sort_desc ?f (from_documents embedding chunks))"
    by (rule sort_desc_sorted)
  then have sorted_entries: "sorted_wrt (\<lambda>a b. ?f b \<le> ?f a) ?entries"
    by (rule sorted_wrt_take)
  have "sorted_wrt (\<lambda>a b. score embedding similarity query (fst b) \<le> score embedding similarity query (fst a)) ?entries"
  proof (rule sorted_wrt_mono_rel [OF _ sorted_entries])
    fix x y
    assume x: "x \<in> set ?entries" and y: "y \<in> set ?entries" and le: "?f y \<le> ?f x"
    have "snd x = embedding (page_content (fst x))"
      using x by (rule snd_eq)
    moreover have "snd y = embedding (page_content (fst y))"
      using y by (rule snd_eq)
    ultimately show "score embedding similarity query (fst y) \<le> score embedding similarity query (fst x)"
      using le unfolding score_def by simp
  qed
  then show "sorted_wrt (\<lambda>a b. score embedding similarity query b \<le> score embedding similarity query a) docs"
    by (simp add: docs sorted_wrt_map)
qed

lemma prepare_placeholder:
  "prepare_vector_store [placeholder_document] embedding similarity query 4 = Inr [placeholder_document]"
  by (simp add: prepare_vector_store_def similarity_search_def from_documents_def sort_desc_def)

lemma str_int_123: "str_int 123 = ''123''"
  by code_simp

lemma render_placeholder:
  "render placeholder_document = ''Source: Page 123'' @ [CHR 0x0A] @ ''Goliath: A race of powerful humanoids known for their strength and size.''"
  by (simp add: render_def placeholder_document_def str_int_123)

lemma search_rules_fst_found:
  assumes "vs query 4 = Inr docs" and "docs \<noteq> []"
  shows "fst (search_rules vs query s) = join [CHR 0x0A, CHR 0x0A] (map render docs)"
  using assms by (simp add: search_rules_def search_rules_try_found)

lemma sublist_first: "sublist xs (xs @ ys)"
  unfolding sublist_def by (rule exI [of _ "[]"], rule exI [of _ ys]) simp

lemma sublist_middle: "sublist xs (ps @ xs @ ss)"
  unfolding sublist_def by blast

lemma possible_words_fireball:
  "possible_words (split ''The Fireball spell deals damage.'') = [''Fireball'']"
  by code_simp

lemma add_referenced_rule_at_other:
  "a \<noteq> self \<Longrightarrow> objects (add_referenced_rule_at self rule h) a = objects h a"
  by (simp add: add_referenced_rule_at_def)

lemma add_referenced_rules_at_other:
  "a \<noteq> self \<Longrightarrow> objects (fold (add_referenced_rule_at self) rules h) a = objects h a"
  by (induction rules arbitrary: h) (simp_all add: add_referenced_rule_at_other)

lemma mentions_keyword_placeholder: "mentions_keyword placeholder_document"
  by code_simp

lemma first_three_words_placeholder: "first_three_words placeholder_document = ''Goliath: A race''"
  by code_simp

lemma search_entries_placeholder:
  "search_entries placeholder_store query = [''Search: '' @ query, ''Found: Goliath: A race'']"
  by (simp add: search_entries_def placeholder_store_def prepare_placeholder found_entries_def
        mentions_keyword_placeholder first_three_words_placeholder)

lemma possible_words_goliath:
  "possible_words (split ''The Goliath is a Race.'') = [''Goliath'']"
  by code_simp

section \<open>The claims\<close>

text \<open>
  C1. \<open>send_message\<close> never raises to its caller. Its \<open>try\<close> block raises exactly when
  the agent invocation raises, and with the same exception \<open>e\<close>; the handler then returns
  \<open>"Error: "\<close> followed by \<open>str(e)\<close>. When the agent invocation does not raise, the \<open>try\<close>
  block does not raise either (the response heuristic cannot fail: every word of
  \<open>split()\<close> is non-empty), and \<open>send_message\<close> returns the final text \<open>response_text\<close>: the
  content of the last message of the last event, or the fallback sentence of the source
  when there is none.
\<close>

theorem send_message_never_raises:
  "(case outcome (agent message) of
      Inl e \<Rightarrow>
        fst (send_message_try vs agent message s) = Inl e
        \<and> fst (send_message vs agent message s) = ''Error: '' @ str_of e
    | Inr events \<Rightarrow>
        fst (send_message_try vs agent message s) = Inr (response_text events)
        \<and> fst (send_message vs agent message s) = response_text events)"
  by (cases "outcome (agent message)") (simp_all add: send_message_eq send_message_try_eq)

theorem send_message_never_raises_witness:
  "fst (send_message placeholder_store failing_agent ''hi'' init) = ''Error: rate limit''
   \<and> fst (send_message placeholder_store goliath_agent ''hi'' init) = ''The Goliath is a Race.''"
  using send_message_never_raises
          [where agent = failing_agent and message = "''hi''" and vs = placeholder_store and s = init]
        send_message_never_raises
          [where agent = goliath_agent and message = "''hi''" and vs = placeholder_store and s = init]
  by (simp add: failing_agent_def goliath_agent_def response_text_def)

text \<open>
  C2. \<open>search_rules\<close> never raises to its caller. The only step of its \<open>try\<close> block that can
  raise is the index search; when it raises \<open>e\<close> the tool returns
  \<open>"Error searching rules: "\<close> followed by \<open>str(e)\<close> and leaves the log as it was. When the
  index search returns, the \<open>try\<close> block returns a string and the tool returns that string.
\<close>

theorem search_rules_never_raises:
  "(case vs query 4 of
      Inl e \<Rightarrow>
        search_rules_try vs query s = (Inl e, s)
        \<and> search_rules vs query s = (''Error searching rules: '' @ str_of e, s)
    | Inr docs \<Rightarrow>
        fst (search_rules_try vs query s) = Inr (fst (search_rules vs query s)))"
proof (cases "vs query 4")
  case (Inl e)
  then show ?thesis
    by (simp add: search_rules_def search_rules_try_raise)
next
  case (Inr docs)
  then show ?thesis
    by (cases "docs = []") (simp_all add: search_rules_def search_rules_try_none search_rules_try_found)
qed

theorem search_rules_never_raises_witness:
  "search_rules failing_store ''goblin'' init = (''Error searching rules: index offline'', init)"
  using search_rules_never_raises [where vs = failing_store and query = "''goblin''" and s = init]
  by (simp add: failing_store_def)

text \<open>
  C3. After any sequence of \<open>send_message\<close> and \<open>search_rules\<close> calls on a new assistant,
  \<open>referenced_rules\<close> holds no string twice; it is exactly the sequence of entries the
  operations logged (\<open>Query: \<close>, \<open>Search: \<close>, \<open>Found: \<close>, \<open>Possible: \<close>), each at its first
  occurrence; and any further operations only extend it at the end, so no entry is
  reordered or removed.
\<close>

theorem referenced_rules_distinct_first_seen:
  "distinct (referenced_rules (run_operations vs ops init))
   \<and> referenced_rules (run_operations vs ops init) = first_seen [] (concat (map (logged vs) ops))
   \<and> prefix (referenced_rules (run_operations vs ops init))
        (referenced_rules (run_operations vs (ops @ later) init))"
proof -
  have "distinct (referenced_rules (run_operations vs ops init))"
    by (simp add: run_operations_eq add_referenced_rules_distinct init_def)
  moreover have "referenced_rules (run_operations vs ops init) = first_seen [] (concat (map (logged vs) ops))"
    by (simp add: run_operations_eq add_referenced_rules_first_seen init_def)
  moreover have "run_operations vs (ops @ later) init = run_operations vs later (run_operations vs ops init)"
    by (simp add: run_operations_def)
  then have "prefix (referenced_rules (run_operations vs ops init))
        (referenced_rules (run_operations vs (ops @ later) init))"
    by (simp add: run_operations_eq [of vs later] add_referenced_rules_prefix)
  ultimately show ?thesis by blast
qed

theorem referenced_rules_distinct_first_seen_witness:
  "referenced_rules
     (run_operations placeholder_store
        [Search_rules ''What is a Goliath?'', Send_message goliath_agent ''hi'',
         Search_rules ''What is a Goliath?''] init)
   = [''Search: What is a Goliath?'', ''Found: Goliath: A race'', ''Query: hi'', ''Possible: Goliath'']"
  using referenced_rules_distinct_first_seen
          [where vs = placeholder_store
             and ops = "[Search_rules ''What is a Goliath?'', Send_message goliath_agent ''hi'',
                         Search_rules ''What is a Goliath?'']"
             and later = "[]"]
  by (simp add: search_entries_placeholder goliath_agent_def response_text_def possible_words_goliath)

text \<open>
  C4 (amended). A call to \<open>search_rules\<close> writes to the log only when the index search
  returns at least one chunk: it then appends \<open>"Search: " + query\<close> and, for each of the
  first 2 returned chunks whose lowercased text contains one of the keywords, \<open>"Found: "\<close>
  followed by the chunk's first three words joined by spaces and trimmed of the characters
  \<open>.,:;\<close> at both ends, each entry only if not already present. When the search returns
  no chunk or raises, the log is left as it was.
\<close>

theorem search_rules_logs_query_and_topics:
  "snd (search_rules vs query s) =
     (case vs query 4 of
        Inl e \<Rightarrow> s
      | Inr docs \<Rightarrow>
          if docs = [] then s
          else add_referenced_rules ((''Search: '' @ query) # found_entries docs) s)"
  by (cases "vs query 4") (simp_all add: search_rules_snd search_entries_def)

theorem search_rules_logs_query_and_topics_witness:
  "referenced_rules (snd (search_rules placeholder_store ''What is a Goliath?'' init))
     = [''Search: What is a Goliath?'', ''Found: Goliath: A race'']"
  using search_rules_logs_query_and_topics
          [where vs = placeholder_store and query = "''What is a Goliath?''" and s = init]
  by (simp add: placeholder_store_def prepare_placeholder found_entries_def
        mentions_keyword_placeholder first_three_words_placeholder add_referenced_rule_def init_def)

text \<open>
  The claim as stated fails on an index with no entries (the rulebook file exists but
  cannot be loaded): the query is not logged.
\<close>

theorem search_rules_logs_query_counterexample:
  "''Search: goblin'' \<notin> set (referenced_rules (snd (search_rules (prepare_vector_store [] length (-)) ''goblin'' init)))"
  by (simp add: search_rules_def search_rules_try_none prepare_vector_store_empty init_def)

text \<open>
  C5. When the index search returns no result, \<open>search_rules\<close> returns exactly
  \<open>"No matching rules found in the rulebooks."\<close> (and leaves the log unchanged).
\<close>

theorem search_rules_no_results:
  "vs query 4 = Inr [] \<Longrightarrow> search_rules vs query s = (''No matching rules found in the rulebooks.'', s)"
  by (simp add: search_rules_def search_rules_try_none)

theorem search_rules_no_results_witness:
  "prepare_vector_store [] length (-) ''goblin'' 4 = Inr []
   \<and> search_rules (prepare_vector_store [] length (-)) ''goblin'' init
       = (''No matching rules found in the rulebooks.'', init)"
  using search_rules_no_results [of "prepare_vector_store [] length (-)" "''goblin''" init]
  by (simp add: prepare_vector_store_empty)

text \<open>
  C6. \<open>search_rules\<close> calls the index search with \<open>k = 4\<close>; when it returns a non-empty
  list of chunks, the tool returns their renderings
  \<open>"Source: Page <page or N/A>\n<text>"\<close> joined by blank lines, in the order the index
  returned them. The index of the specification returns at most 4 chunks in descending
  similarity. For the index built from the placeholder chunk alone,
  \<open>search_rules("What is a Goliath?")\<close> contains \<open>"Source: Page 123"\<close> and \<open>"Goliath"\<close>,
  whatever the embedding and the similarity are.
\<close>

theorem search_rules_renders_results:
  "(vs query 4 = Inr docs \<and> docs \<noteq> [] \<longrightarrow>
      fst (search_rules vs query s) = join [CHR 0x0A, CHR 0x0A] (map render docs))
   \<and> (prepare_vector_store chunks embedding similarity query 4 = Inr docs \<longrightarrow>
        length docs \<le> 4
        \<and> sorted_wrt (\<lambda>a b. score embedding similarity query b \<le> score embedding similarity query a) docs)
   \<and> sublist ''Source: Page 123''
        (fst (search_rules (prepare_vector_store [placeholder_document] embedding similarity)
               ''What is a Goliath?'' s))
   \<and> sublist ''Goliath''
        (fst (search_rules (prepare_vector_store [placeholder_document] embedding similarity)
               ''What is a Goliath?'' s))"
proof -
  let ?vs = "prepare_vector_store [placeholder_document] embedding similarity"
  have r: "fst (search_rules ?vs ''What is a Goliath?'' s) = render placeholder_document"
    using search_rules_fst_found [of ?vs "''What is a Goliath?''" "[placeholder_document]" s]
    by (simp add: prepare_placeholder)
  have a: "sublist ''Source: Page 123'' (render placeholder_document)"
    unfolding render_placeholder by (rule sublist_first)
  have "render placeholder_document = (''Source: Page 123'' @ [CHR 0x0A]) @ ''Goliath'' @ '': A race of powerful humanoids known for their strength and size.''"
    by (simp add: render_placeholder)
  then have b: "sublist ''Goliath'' (render placeholder_document)"
    by (simp only: sublist_middle)
  show ?thesis
  proof (intro conjI impI)
    assume "vs query 4 = Inr docs \<and> docs \<noteq> []"
    then show "fst (search_rules vs query s) = join [CHR 0x0A, CHR 0x0A] (map render docs)"
      using search_rules_fst_found by blast
  next
    assume "prepare_vector_store chunks embedding similarity query 4 = Inr docs"
    then show "length docs \<le> 4"
      by (rule prepare_vector_store_ranked)
  next
    assume "prepare_vector_store chunks embedding similarity query 4 = Inr docs"
    then show "sorted_wrt (\<lambda>a b. score embedding similarity query b \<le> score embedding similarity query a) docs"
      by (rule prepare_vector_store_ranked)
  next
    show "sublist ''Source: Page 123'' (fst (search_rules ?vs ''What is a Goliath?'' s))"
      unfolding r by (rule a)
  next
    show "sublist ''Goliath'' (fst (search_rules ?vs ''What is a Goliath?'' s))"
      unfolding r by (rule b)
  qed
qed

theorem search_rules_renders_results_witness:
  "prepare_vector_store [placeholder_document] length (-) ''What is a Goliath?'' 4 = Inr [placeholder_document]
   \<and> [placeholder_document] \<noteq> []
   \<and> fst (search_rules (prepare_vector_store [placeholder_document] length (-)) ''What is a Goliath?'' init)
       = ''Source: Page 123'' @ [CHR 0x0A] @ ''Goliath: A race of powerful humanoids known for their strength and size.''"
  using search_rules_renders_results
          [of "prepare_vector_store [placeholder_document] length (-)" "''What is a Goliath?''"
              "[placeholder_document]" init "[placeholder_document]" length "(-)"]
  by (simp add: prepare_placeholder render_placeholder)

text \<open>
  C7. The response heuristic never raises and appends, in order and without duplicates,
  \<open>"Possible: " + word\<close> for each word of \<open>response.split()\<close> that is alphabetic, longer
  than 2, starts with an uppercase character, is not the first word, and whose preceding
  word does not end in \<open>.\<close>, \<open>!\<close> or \<open>?\<close>. For \<open>"The Fireball spell deals damage."\<close> it
  appends exactly \<open>"Possible: Fireball"\<close>; on a new assistant the log then contains that
  entry and not \<open>"Possible: The"\<close>.
\<close>

theorem extract_rules_from_response_possible:
  "extract_rules_from_response response query s =
     (None, add_referenced_rules (map ((@) ''Possible: '') (possible_words (split response))) s)
   \<and> snd (extract_rules_from_response ''The Fireball spell deals damage.'' query s)
       = add_referenced_rule ''Possible: Fireball'' s
   \<and> ''Possible: Fireball''
       \<in> set (referenced_rules (snd (extract_rules_from_response ''The Fireball spell deals damage.'' query init)))
   \<and> ''Possible: The''
       \<notin> set (referenced_rules (snd (extract_rules_from_response ''The Fireball spell deals damage.'' query init)))"
proof -
  have ex: "\<And>s. snd (extract_rules_from_response ''The Fireball spell deals damage.'' query s)
        = add_referenced_rule ''Possible: Fireball'' s"
    by (simp only: extract_rules_from_response_eq possible_words_fireball snd_conv list.map
          add_referenced_rules_Cons add_referenced_rules_Nil append.simps)
  have "referenced_rules (add_referenced_rule ''Possible: Fireball'' init) = [''Possible: Fireball'']"
    by (simp add: add_referenced_rule_def init_def)
  then show ?thesis
    by (simp add: ex extract_rules_from_response_eq possible_words_fireball)
qed

text \<open>
  C8 (amended). When the rulebook file does not exist, the documents of the index are the
  single placeholder chunk, whose page number is 123, and the index built from them has
  exactly one entry, so it is never empty in this case.
\<close>

theorem missing_rulebook_gives_placeholder_index:
  assumes "pdf_path \<notin> set files"
  shows "rules_docs files loader split_documents = [placeholder_document]
         \<and> page placeholder_document = Some 123
         \<and> from_documents embedding (rules_docs files loader split_documents)
             = [(placeholder_document, embedding (page_content placeholder_document))]
         \<and> length (from_documents embedding (rules_docs files loader split_documents)) = 1"
  using assms by (simp add: rules_docs_def from_documents_def placeholder_document_def)

theorem missing_rulebook_gives_placeholder_index_witness:
  "pdf_path \<notin> set []
   \<and> rules_docs [] (Inl \<circ> Exception) Inr = [placeholder_document]
   \<and> length (from_documents length (rules_docs [] (Inl \<circ> Exception) Inr)) = 1"
  using missing_rulebook_gives_placeholder_index [of "[]" "Inl \<circ> Exception" Inr length]
  by (simp add: from_documents_def)

text \<open>
  The claim as stated says the placeholder's page number is absent; the source gives it
  the page number 123.
\<close>

theorem placeholder_page_counterexample:
  "map page (rules_docs [] (Inl \<circ> Exception) Inr) = [Some 123]
   \<and> map page (rules_docs [] (Inl \<circ> Exception) Inr) \<noteq> [None]"
  by (simp add: rules_docs_def placeholder_document_def)

text \<open>
  C9. \<open>get_referenced_rules\<close> returns a new list object holding the items of the log:
  the call changes no existing object (the assistant's log in particular), later appends
  to the log do not change the returned list, and changing the returned list in place
  does not change the log.
\<close>

theorem get_referenced_rules_snapshot:
  assumes "self < next_addr h"
  shows "(case get_referenced_rules self h of
            (r, h') \<Rightarrow>
              r \<noteq> self
              \<and> objects h' r = objects h self
              \<and> objects h' self = objects h self
              \<and> (\<forall>a. a < next_addr h \<longrightarrow> objects h' a = objects h a)
              \<and> objects (fold (add_referenced_rule_at self) rules h') r = objects h self
              \<and> objects (mutate_list r f h') self = objects h self)"
proof -
  let ?r = "next_addr h"
  let ?h' = "h\<lparr>objects := (objects h)(?r := objects h self), next_addr := Suc ?r\<rparr>"
  have g: "get_referenced_rules self h = (?r, ?h')"
    by (simp add: get_referenced_rules_def new_list_def)
  have ne: "?r \<noteq> self"
    using assms by simp
  have copy: "objects ?h' ?r = objects h self"
    by simp
  have frame: "\<forall>a. a < next_addr h \<longrightarrow> objects ?h' a = objects h a"
    by simp
  have self_same: "objects ?h' self = objects h self"
    using assms by simp
  have later: "objects (fold (add_referenced_rule_at self) rules ?h') ?r = objects h self"
    using add_referenced_rules_at_other [OF ne, of rules ?h'] copy by simp
  have mut: "objects (mutate_list ?r f ?h') self = objects h self"
    using ne by (simp add: mutate_list_def)
  show ?thesis
    unfolding g using ne copy frame self_same later mut by simp
qed

theorem get_referenced_rules_snapshot_witness:
  "(0::nat) < next_addr example_store
   \<and> fst (get_referenced_rules 0 example_store) = 1
   \<and> objects (snd (get_referenced_rules 0 example_store)) 1 = [''Query: hi'']
   \<and> objects (fold (add_referenced_rule_at 0) [''Search: x'']
                (snd (get_referenced_rules 0 example_store))) 1 = [''Query: hi'']
   \<and> objects (fold (add_referenced_rule_at 0) [''Search: x'']
                (snd (get_referenced_rules 0 example_store))) 0 = [''Query: hi'', ''Search: x'']
   \<and> objects (mutate_list 1 tl (snd (get_referenced_rules 0 example_store))) 0 = [''Query: hi'']"
  using get_referenced_rules_snapshot [of 0 example_store "[''Search: x'']" tl]
  by (simp add: example_store_def get_referenced_rules_def new_list_def add_referenced_rule_at_def
        add_referenced_rule_def mutate_list_def)

text \<open>
  C10. \<open>send_message\<close> logs \<open>"Query: " + message\<close> before the agent runs. When the agent
  invocation raises, \<open>send_message\<close> returns the \<open>"Error: "\<close> string and the log still
  contains the \<open>Query: \<close> entry: the log after the call extends the log as it was right
  after the entry was added.
\<close>

theorem send_message_keeps_query_on_error:
  assumes "outcome (agent message) = Inl e"
  shows "fst (send_message vs agent message s) = ''Error: '' @ str_of e
         \<and> ''Query: '' @ message \<in> set (referenced_rules (snd (send_message vs agent message s)))
         \<and> prefix (referenced_rules (add_referenced_rule (''Query: '' @ message) s))
              (referenced_rules (snd (send_message vs agent message s)))"
proof -
  let ?s1 = "add_referenced_rule (''Query: '' @ message) s"
  let ?rest = "concat (map (search_entries vs) (tool_calls (agent message)))"
  have snd_eq: "snd (send_message vs agent message s) = add_referenced_rules ?rest ?s1"
    using assms by (simp add: send_message_eq)
  have p: "prefix (referenced_rules ?s1) (referenced_rules (snd (send_message vs agent message s)))"
    unfolding snd_eq by (rule add_referenced_rules_prefix)
  have "''Query: '' @ message \<in> set (referenced_rules ?s1)"
    by (rule query_logged)
  with p have "''Query: '' @ message \<in> set (referenced_rules (snd (send_message vs agent message s)))"
    using set_mono_prefix by blast
  moreover have "fst (send_message vs agent message s) = ''Error: '' @ str_of e"
    using assms by (simp add: send_message_eq)
  ultimately show ?thesis
    using p by blast
qed

theorem send_message_keeps_query_on_error_witness:
  "outcome (failing_agent ''hi'') = Inl (Exception ''rate limit'')
   \<and> fst (send_message (prepare_vector_store [] length (-)) failing_agent ''hi'' init) = ''Error: rate limit''
   \<and> ''Query: hi'' \<in> set (referenced_rules (snd (send_message (prepare_vector_store [] length (-)) failing_agent ''hi'' init)))"
  using send_message_keeps_query_on_error
          [of failing_agent "''hi''" "Exception ''rate limit''" "prepare_vector_store [] length (-)" init]
  by (simp add: failing_agent_def)

end
